theory Spec2Isabelle
  imports Main "HOL-Library.Word" "HOL-Library.Multiset"
begin

section \<open>Data model\<close>

text \<open>
  The protocol file works on interface values only: a \<open>Proposer\<close> and an \<open>Acceptor\<close>
  are references to objects whose implementation lives elsewhere. A reference is
  modelled by the identity of the object it points to, so that the same proposer may
  occur twice in a list, as in Go.
\<close>

type_synonym bytes = "8 word list"
type_synonym key = string
type_synonym Proposer = nat
type_synonym Acceptor = nat
type_synonym ChangeFunc = "bytes \<Rightarrow> bytes"

text \<open>
  Modelled from the spec: the type \<open>Ballot\<close> is declared outside the source file. The
  spec gives it as the pair of an unsigned 64-bit counter and a proposer identifier.
\<close>

record Ballot =
  Counter :: "64 word"
  ID :: nat

record Tombstone =
  Ballot :: Ballot
  State :: bytes

text \<open>
  Go errors. \<open>Canceled\<close> is the sentinel \<open>context.Canceled\<close>, which the code compares
  with \<open>==\<close>; \<open>ErrNotEmpty\<close> is the sentinel of the protocol package; \<open>Wrapped e msg\<close> is
  what \<open>errors.Wrap(e, msg)\<close> of github.com/pkg/errors builds around a non-nil \<open>e\<close>;
  \<open>Errorf f args\<close> is the error of \<open>fmt.Errorf\<close> and \<open>errors.Errorf\<close>, kept as the
  format with its arguments; \<open>Failure\<close> is any other error of an implementation.
  An \<open>error\<close> value of Go is an \<open>error option\<close>, with \<open>None\<close> for \<open>nil\<close>.
\<close>

datatype arg = S string | D nat

datatype error =
    Canceled
  | DeadlineExceeded
  | ErrNotEmpty
  | Failure string
  | Errorf string "arg list"
  | Wrapped error string

text \<open>
  \<open>errors.Wrap\<close> as documented by its package: "If err is nil, Wrap returns nil."
\<close>

definition Wrap :: "error option \<Rightarrow> string \<Rightarrow> error option" where
  "Wrap e msg = (case e of None \<Rightarrow> None | Some e' \<Rightarrow> Some (Wrapped e' msg))"

definition zerokey :: key where
  "zerokey = []"

definition identity :: ChangeFunc where
  "identity = (\<lambda>x. x)"

subsection \<open>Calls through the interfaces\<close>

text \<open>
  Every method of the \<open>Proposer\<close> and \<open>Acceptor\<close> interfaces that the file calls is a
  constructor of \<open>call\<close>, with the receiver first. \<open>After_or_Done d\<close> is the
  \<open>select\<close> between \<open>time.After(d)\<close> and \<open>ctx.Done()\<close> of GarbageCollect (\<open>d\<close> in
  nanoseconds): its reply carries no error when the timer fired, and \<open>ctx.Err()\<close> when
  the context was done.
\<close>

datatype call =
    AddAccepter Proposer Acceptor
  | AddPreparer Proposer Acceptor
  | RemovePreparer Proposer Acceptor
  | RemoveAccepter Proposer Acceptor
  | Propose Proposer key ChangeFunc
  | FullIdentityRead Proposer key
  | FastForward Proposer "64 word"
  | RemoveIfEmpty Acceptor key
  | After_or_Done nat

record reply =
  state :: bytes
  ballot :: Ballot
  err :: "error option"

text \<open>
  The implementation behind the interfaces is a handler over a world of type \<open>'w\<close>.
  The state threaded through the procedures is that world together with the log of
  the calls made so far and their replies.
\<close>

type_synonym 'w handler = "call \<Rightarrow> 'w \<Rightarrow> reply \<times> 'w"

record 'w st =
  world :: 'w
  trace :: "(call \<times> reply) list"

definition invoke :: "'w handler \<Rightarrow> call \<Rightarrow> 'w st \<Rightarrow> reply \<times> 'w st" where
  "invoke h c s =
     (let (r, w') = h c (world s)
      in (r, \<lparr>world = w', trace = trace s @ [(c, r)]\<rparr>))"

text \<open>
  \<open>rand.Intn(n)\<close> panics for \<open>n \<le> 0\<close> and returns a number below \<open>n\<close> otherwise;
  \<open>rnd\<close> is the number the generator draws. \<open>None\<close> is the panic.
\<close>

definition Intn :: "nat \<Rightarrow> nat \<Rightarrow> nat option" where
  "Intn rnd n = (if n = 0 then None else Some (rnd mod n))"

datatype result = Panic | Return "error option"

section \<open>GrowCluster and ShrinkCluster\<close>

text \<open>
  The undo stack holds function literals such as
  \<^verbatim>\<open>func() { proposer.RemoveAccepter(target) }\<close>, which capture the variable
  \<open>proposer\<close> of the enclosing \<open>range\<close> loop, not its value. Up to Go 1.21 a \<open>range\<close>
  loop has one such variable, assigned anew in every iteration; since Go 1.22 (for
  modules that declare it) every iteration has its own. The source, written against
  github.com/pkg/errors and go-kit/kit/log, is of the first kind; the model takes the
  rule as a parameter so that both readings can be compared.

  A variable is named by the number of its loop and, with one variable per iteration,
  the iteration; \<open>vars\<close> is the store of the loop variables of one call.
\<close>

datatype loopvars = OnePerLoop | OnePerIteration

type_synonym var = "nat \<times> nat"

fun loopvar :: "loopvars \<Rightarrow> nat \<Rightarrow> nat \<Rightarrow> var" where
  "loopvar OnePerLoop l i = (l, 0)"
| "loopvar OnePerIteration l i = (l, i)"

datatype closure =
    Call_RemoveAccepter var
  | Call_RemovePreparer var
  | Call_AddPreparer var
  | Call_AddAccepter var

record frame =
  vars :: "var \<Rightarrow> Proposer"
  undo :: "closure list"

definition frame0 :: frame where
  "frame0 = \<lparr>vars = (\<lambda>v. 0), undo = []\<rparr>"

fun run_closure :: "'w handler \<Rightarrow> Acceptor \<Rightarrow> (var \<Rightarrow> Proposer) \<Rightarrow> closure \<Rightarrow> 'w st \<Rightarrow> 'w st" where
  "run_closure h target vs (Call_RemoveAccepter v) s = snd (invoke h (RemoveAccepter (vs v) target) s)"
| "run_closure h target vs (Call_RemovePreparer v) s = snd (invoke h (RemovePreparer (vs v) target) s)"
| "run_closure h target vs (Call_AddPreparer v) s = snd (invoke h (AddPreparer (vs v) target) s)"
| "run_closure h target vs (Call_AddAccepter v) s = snd (invoke h (AddAccepter (vs v) target) s)"

text \<open>
  The deferred function: \<^verbatim>\<open>for i := len(undo) - 1; i >= 0; i-- { undo[i]() }\<close>.
  The errors of the undo calls are dropped.
\<close>

definition run_deferred :: "'w handler \<Rightarrow> Acceptor \<Rightarrow> frame \<Rightarrow> 'w st \<Rightarrow> 'w st" where
  "run_deferred h target fr s = fold (run_closure h target (vars fr)) (rev (undo fr)) s"

text \<open>
  The four loops over the proposers have one shape:
  \<^verbatim>\<open>for _, proposer := range proposers {
      if err := proposer.M(target); err != nil { return errors.Wrap(err, msg) }
      undo = append(undo, func() { proposer.M'(target) })
  }\<close>
  \<open>l\<close> is the number of the loop, \<open>i\<close> the iteration, \<open>m\<close> the call and \<open>u\<close> the
  function literal. The result is the error to return, if any.
\<close>

fun range_loop ::
  "loopvars \<Rightarrow> 'w handler \<Rightarrow> nat \<Rightarrow> (Proposer \<Rightarrow> call) \<Rightarrow> (var \<Rightarrow> closure) \<Rightarrow> string \<Rightarrow>
   Proposer list \<Rightarrow> nat \<Rightarrow> frame \<Rightarrow> 'w st \<Rightarrow> error option \<times> frame \<times> 'w st" where
  "range_loop lv h l m u msg [] i fr s = (None, fr, s)"
| "range_loop lv h l m u msg (p # ps) i fr s =
     (let v = loopvar lv l i;
          fr1 = fr\<lparr>vars := (vars fr)(v := p)\<rparr>;
          (r, s1) = invoke h (m p) s
      in if err r \<noteq> None then (Wrap (err r) msg, fr1, s1)
         else range_loop lv h l m u msg ps (Suc i) (fr1\<lparr>undo := undo fr1 @ [u v]\<rparr>) s1)"

text \<open>
  The body of GrowCluster up to its \<open>return\<close> (or panic), with the frame it leaves to
  the deferred function.
\<close>

definition GrowCluster_body ::
  "loopvars \<Rightarrow> 'w handler \<Rightarrow> nat \<Rightarrow> Acceptor \<Rightarrow> Proposer list \<Rightarrow> 'w st \<Rightarrow> result \<times> frame \<times> 'w st" where
  "GrowCluster_body lv h rnd target proposers s =
     (case range_loop lv h 1 (\<lambda>p. AddAccepter p target) Call_RemoveAccepter
             ''during grow step 1 (add accepter)'' proposers 0 frame0 s of
        (Some e, fr1, s1) \<Rightarrow> (Return (Some e), fr1, s1)
      | (None, fr1, s1) \<Rightarrow>
          (case Intn rnd (length proposers) of
             None \<Rightarrow> (Panic, fr1, s1)
           | Some n \<Rightarrow>
               (let proposer = proposers ! n;
                    (r, s2) = invoke h (Propose proposer zerokey identity) s1
                in if err r \<noteq> None
                   then (Return (Wrap (err r) ''during grow step 2 (identity read)''), fr1, s2)
                   else
                     (case range_loop lv h 3 (\<lambda>p. AddPreparer p target) Call_RemovePreparer
                             ''during grow step 3 (add preparer)'' proposers 0 fr1 s2 of
                        (Some e, fr3, s3) \<Rightarrow> (Return (Some e), fr3, s3)
                      | (None, fr3, s3) \<Rightarrow> (Return None, fr3\<lparr>undo := []\<rparr>, s3)))))"

definition GrowCluster ::
  "loopvars \<Rightarrow> 'w handler \<Rightarrow> nat \<Rightarrow> Acceptor \<Rightarrow> Proposer list \<Rightarrow> 'w st \<Rightarrow> result \<times> 'w st" where
  "GrowCluster lv h rnd target proposers s =
     (let (res, fr, s') = GrowCluster_body lv h rnd target proposers s
      in (res, run_deferred h target fr s'))"

definition ShrinkCluster_body ::
  "loopvars \<Rightarrow> 'w handler \<Rightarrow> nat \<Rightarrow> Acceptor \<Rightarrow> Proposer list \<Rightarrow> 'w st \<Rightarrow> result \<times> frame \<times> 'w st" where
  "ShrinkCluster_body lv h rnd target proposers s =
     (case range_loop lv h 1 (\<lambda>p. RemovePreparer p target) Call_AddPreparer
             ''during shrink step 1 (remove preparer)'' proposers 0 frame0 s of
        (Some e, fr1, s1) \<Rightarrow> (Return (Some e), fr1, s1)
      | (None, fr1, s1) \<Rightarrow>
          (case Intn rnd (length proposers) of
             None \<Rightarrow> (Panic, fr1, s1)
           | Some n \<Rightarrow>
               (let proposer = proposers ! n;
                    (r, s2) = invoke h (Propose proposer zerokey identity) s1
                in if err r \<noteq> None
                   then (Return (Wrap (err r) ''during shrink step 2 (identity read)''), fr1, s2)
                   else
                     (case range_loop lv h 3 (\<lambda>p. RemoveAccepter p target) Call_AddAccepter
                             ''during shrink step 3 (remove accepter)'' proposers 0 fr1 s2 of
                        (Some e, fr3, s3) \<Rightarrow> (Return (Some e), fr3, s3)
                      | (None, fr3, s3) \<Rightarrow> (Return None, fr3\<lparr>undo := []\<rparr>, s3)))))"

definition ShrinkCluster ::
  "loopvars \<Rightarrow> 'w handler \<Rightarrow> nat \<Rightarrow> Acceptor \<Rightarrow> Proposer list \<Rightarrow> 'w st \<Rightarrow> result \<times> 'w st" where
  "ShrinkCluster lv h rnd target proposers s =
     (let (res, fr, s') = ShrinkCluster_body lv h rnd target proposers s
      in (res, run_deferred h target fr s'))"

section \<open>GarbageCollect\<close>

text \<open>
  The loop of GarbageCollect may run for ever, so the model is a partial function whose
  value \<open>None\<close> is "does not return". \<open>rnd i\<close> is the number drawn in the \<open>i\<close>-th round
  of the loop. One second is \<open>time.Second\<close>, in nanoseconds. The tombstone and the
  acceptors are parameters that the body never uses.
\<close>

definition Second :: nat where
  "Second = 1000000000"

partial_function (option) GarbageCollect ::
  "'w handler \<Rightarrow> (nat \<Rightarrow> nat) \<Rightarrow> nat \<Rightarrow> key \<Rightarrow> Tombstone \<Rightarrow> Proposer list \<Rightarrow> Acceptor list \<Rightarrow>
   'w st \<Rightarrow> (result \<times> 'w st) option" where
  "GarbageCollect h rnd i key t proposers acceptors s =
     (case Intn (rnd i) (length proposers) of
        None \<Rightarrow> Some (Panic, s)
      | Some n \<Rightarrow>
          (let proposer = proposers ! n;
               (r, s1) = invoke h (FullIdentityRead proposer key) s
           in if err r = Some Canceled then Some (Return (err r), s1)
              else if err r \<noteq> None then
                (let (d, s2) = invoke h (After_or_Done Second) s1
                 in if err d = None
                    then GarbageCollect h rnd (Suc i) key t proposers acceptors s2
                    else Some (Return (err d), s2))
              else Some (Return None, s1)))"

section \<open>The broadcast helpers\<close>








section \<open>calculateAdvertiseIP\<close>

text \<open>
  A \<open>net.IP\<close> is a byte slice, \<open>nil\<close> when there is none. \<open>To4\<close> is the method of the Go
  library: a 4-byte address is returned as it is, a 16-byte address with the prefix of
  an IPv4-mapped address gives its last four bytes, anything else gives \<open>nil\<close>.
  \<open>IPv4 a b c d\<close> is the 16-byte form that \<open>net.ParseIP\<close> returns for a dotted quad.
\<close>

type_synonym IP = bytes

definition v4InV6Prefix :: bytes where
  "v4InV6Prefix = [0, 0, 0, 0, 0, 0, 0, 0, 0, 0, 0xff, 0xff]"

definition IPv4 :: "8 word \<Rightarrow> 8 word \<Rightarrow> 8 word \<Rightarrow> 8 word \<Rightarrow> IP" where
  "IPv4 a b c d = v4InV6Prefix @ [a, b, c, d]"

definition To4 :: "IP \<Rightarrow> IP option" where
  "To4 ip =
     (if length ip = 4 then Some ip
      else if length ip = 16 \<and> take 10 ip = replicate 10 0 \<and> ip ! 10 = 0xff \<and> ip ! 11 = 0xff
      then Some (drop 12 ip)
      else None)"

text \<open>
  What the function asks of its surroundings: \<open>net.ParseIP\<close>, the resolver's
  \<open>LookupIPAddr\<close> and \<open>sockaddr.GetPrivateIP\<close>, which returns the empty string and no
  error when the host has no private address. The warning that the function logs has
  no part in what it returns and is left out.
\<close>

record host =
  ParseIP :: "string \<Rightarrow> IP option"
  LookupIPAddr :: "string \<Rightarrow> IP list \<times> error option"
  GetPrivateIP :: "string \<times> error option"

text \<open>\<^verbatim>\<open>if ip4 := ip.To4(); ip4 != nil { ip = ip4 }\<close>\<close>

definition to4_if_any :: "IP \<Rightarrow> IP" where
  "to4_if_any ip = (case To4 ip of Some ip4 \<Rightarrow> ip4 | None \<Rightarrow> ip)"

text \<open>
  The first block of the function, entered when an advertise host is given: \<open>Some ip\<close>
  is its \<open>return ip, nil\<close>, \<open>None\<close> the fall through to the bind host.
\<close>

definition prefer_advertise :: "host \<Rightarrow> string \<Rightarrow> IP option" where
  "prefer_advertise env advertiseHost =
     (case ParseIP env advertiseHost of
        Some ip \<Rightarrow> Some (to4_if_any ip)
      | None \<Rightarrow>
          (let (ips, e) = LookupIPAddr env advertiseHost
           in if e = None \<and> length ips = 1 then Some (to4_if_any (ips ! 0)) else None))"

text \<open>
  The formats quote the host with the character \<open>'\<close>, written \<open>q\<close> here.
\<close>

definition q :: string where
  "q = [CHR 0x27]"

definition calculateAdvertiseIP :: "host \<Rightarrow> string \<Rightarrow> string \<Rightarrow> IP option \<times> error option" where
  "calculateAdvertiseIP env bindHost advertiseHost =
     (case (if advertiseHost \<noteq> [] then prefer_advertise env advertiseHost else None) of
        Some ip \<Rightarrow> (Some ip, None)
      | None \<Rightarrow>
          if bindHost = ''0.0.0.0'' then
            (let (privateIP, e) = GetPrivateIP env
             in if e \<noteq> None
                then (None, Wrap e ''failed to deduce private IP from all-zeroes bind address'')
                else if privateIP = []
                then (None, Wrap e ''no private IP found, and explicit advertise address not provided'')
                else (case ParseIP env privateIP of
                        None \<Rightarrow>
                          (None, Some (Errorf (''failed to parse private IP '' @ q @ ''%s'' @ q)
                                         [S privateIP]))
                      | Some ip \<Rightarrow> (Some ip, None)))
          else
            (case ParseIP env bindHost of
               Some ip \<Rightarrow> (Some ip, None)
             | None \<Rightarrow>
                 (let (ips, e) = LookupIPAddr env bindHost
                  in if e = None \<and> length ips = 1 then (Some (to4_if_any (ips ! 0)), None)
                     else
                       (let e' = (if e = None \<and> length ips \<noteq> 1
                                  then Some (Errorf (''bind host '' @ q @ ''%s'' @ q @ '' resolved to %d IPs'')
                                               [S bindHost, D (length ips)])
                                  else e)
                        in (None, Wrap e' ''bind host failed to resolve'')))))"

section \<open>In-memory proposers and acceptors\<close>

text \<open>
  Modelled from the spec: the implementations of the \<open>Proposer\<close> and \<open>Acceptor\<close>
  interfaces are not part of the source file. The spec gives each proposer a
  \<open>PrepareSet\<close> and an \<open>AcceptSet\<close>, lets \<open>Add\<close> fail on a target that is already
  present and \<open>Remove\<close> on one that is not, makes \<open>Propose\<close> commit the change
  function's result under a fresh, higher ballot, makes \<open>FullIdentityRead\<close> return the
  register, \<open>FastForward\<close> raise the counter and \<open>RemoveIfEmpty\<close> fail with the
  not-empty error on a non-empty register. The fake below is the smallest world that
  does so: one register space and one ballot counter shared by all nodes. A test
  injects a failure with \<open>inject\<close>: the call handled at tick \<open>clock\<close> fails with the
  given error and leaves the world as it was. Its context is never done unless a
  failure is injected into the \<open>select\<close>.
\<close>

record fake =
  PrepareSet :: "Proposer \<Rightarrow> Acceptor set"
  AcceptSet :: "Proposer \<Rightarrow> Acceptor set"
  registers :: "key \<Rightarrow> bytes"
  issued :: "64 word"
  clock :: nat

definition ok :: reply where
  "ok = \<lparr>state = [], ballot = \<lparr>Counter = 0, ID = 0\<rparr>, err = None\<rparr>"

definition failed :: "error \<Rightarrow> reply" where
  "failed e = \<lparr>state = [], ballot = \<lparr>Counter = 0, ID = 0\<rparr>, err = Some e\<rparr>"

fun fake_call :: "call \<Rightarrow> fake \<Rightarrow> reply \<times> fake" where
  "fake_call (AddAccepter p a) w =
     (if a \<in> AcceptSet w p then (failed (Failure ''already present''), w)
      else (ok, w\<lparr>AcceptSet := (AcceptSet w)(p := insert a (AcceptSet w p))\<rparr>))"
| "fake_call (AddPreparer p a) w =
     (if a \<in> PrepareSet w p then (failed (Failure ''already present''), w)
      else (ok, w\<lparr>PrepareSet := (PrepareSet w)(p := insert a (PrepareSet w p))\<rparr>))"
| "fake_call (RemovePreparer p a) w =
     (if a \<notin> PrepareSet w p then (failed (Failure ''not present''), w)
      else (ok, w\<lparr>PrepareSet := (PrepareSet w)(p := PrepareSet w p - {a})\<rparr>))"
| "fake_call (RemoveAccepter p a) w =
     (if a \<notin> AcceptSet w p then (failed (Failure ''not present''), w)
      else (ok, w\<lparr>AcceptSet := (AcceptSet w)(p := AcceptSet w p - {a})\<rparr>))"
| "fake_call (Propose p k f) w =
     (let v = f (registers w k); n = issued w + 1
      in (\<lparr>state = v, ballot = \<lparr>Counter = n, ID = p\<rparr>, err = None\<rparr>,
          w\<lparr>registers := (registers w)(k := v), issued := n\<rparr>))"
| "fake_call (FullIdentityRead p k) w =
     (let n = issued w + 1
      in (\<lparr>state = registers w k, ballot = \<lparr>Counter = n, ID = p\<rparr>, err = None\<rparr>,
          w\<lparr>issued := n\<rparr>))"
| "fake_call (FastForward p c) w = (ok, w\<lparr>issued := max (issued w) c\<rparr>)"
| "fake_call (RemoveIfEmpty a k) w =
     (if registers w k \<noteq> [] then (failed ErrNotEmpty, w) else (ok, w))"
| "fake_call (After_or_Done d) w = (ok, w)"

definition fake_handler :: "(nat \<Rightarrow> call \<Rightarrow> error option) \<Rightarrow> fake handler" where
  "fake_handler inject c w =
     (let w1 = w\<lparr>clock := Suc (clock w)\<rparr>
      in case inject (clock w) c of
           Some e \<Rightarrow> (failed e, w1)
         | None \<Rightarrow> fake_call c w1)"

text \<open>
  The steady state of the spec's scenarios: proposers 1, 2, 3, each with the acceptors
  1, 2, 3 in both sets; acceptor 4 is the one to add.
\<close>

definition steady :: fake where
  "steady = \<lparr>PrepareSet = (\<lambda>p. {1, 2, 3}), AcceptSet = (\<lambda>p. {1, 2, 3}),
             registers = (\<lambda>k. []), issued = 0, clock = 0\<rparr>"

definition start :: "'w \<Rightarrow> 'w st" where
  "start w = \<lparr>world = w, trace = []\<rparr>"

definition no_fault :: "nat \<Rightarrow> call \<Rightarrow> error option" where
  "no_fault t c = None"

text \<open>The failure of scenario S3: \<open>AddPreparer\<close> fails on proposer 3.\<close>

fun fault_S3 :: "nat \<Rightarrow> call \<Rightarrow> error option" where
  "fault_S3 t (AddPreparer p a) = (if p = 3 then Some (Failure ''injected'') else None)"
| "fault_S3 t c = None"

text \<open>Failures injected by the tick of the call: \<open>fault_at [(0, e)]\<close> fails the first call.\<close>

definition fault_at :: "(nat \<times> error) list \<Rightarrow> nat \<Rightarrow> call \<Rightarrow> error option" where
  "fault_at fs t c = map_of fs t"

text \<open>
  A host for the scenarios of the advertise address: it parses the two addresses the
  scenarios use as \<open>net.ParseIP\<close> does, resolves no name and has no private address.
\<close>

definition lab_host :: host where
  "lab_host =
     \<lparr>ParseIP = (\<lambda>s. if s = ''1.2.3.4'' then Some (IPv4 1 2 3 4)
                      else if s = ''2001:db8::1''
                      then Some [0x20, 0x01, 0x0d, 0xb8, 0, 0, 0, 0, 0, 0, 0, 0, 0, 0, 0, 1]
                      else None),
      LookupIPAddr = (\<lambda>s. ([], Some (Failure ''no such host''))),
      GetPrivateIP = ([], None)\<rparr>"

text \<open>The cluster after acceptor 4 has been added: it is in both sets of every proposer.\<close>

definition grown :: fake where
  "grown = \<lparr>PrepareSet = (\<lambda>p. {1, 2, 3, 4}), AcceptSet = (\<lambda>p. {1, 2, 3, 4}),
            registers = (\<lambda>k. []), issued = 0, clock = 0\<rparr>"


section \<open>The steps of a reconfiguration, as the spec lists them\<close>

text \<open>
  The spec gives GrowCluster and ShrinkCluster as three numbered steps, two of them
  one call per proposer, run in order and stopped at the first error, which is
  returned under the name of its step. \<open>run_steps\<close> is that reading: a list of calls,
  each with the message of its step, run one after the other; the first call that
  fails ends the run, and its error is returned wrapped in the message.
\<close>

definition grow_steps :: "Acceptor \<Rightarrow> Proposer list \<Rightarrow> nat \<Rightarrow> (call \<times> string) list" where
  "grow_steps target proposers n =
     map (\<lambda>p. (AddAccepter p target, ''during grow step 1 (add accepter)'')) proposers @
     [(Propose (proposers ! n) zerokey identity, ''during grow step 2 (identity read)'')] @
     map (\<lambda>p. (AddPreparer p target, ''during grow step 3 (add preparer)'')) proposers"

definition shrink_steps :: "Acceptor \<Rightarrow> Proposer list \<Rightarrow> nat \<Rightarrow> (call \<times> string) list" where
  "shrink_steps target proposers n =
     map (\<lambda>p. (RemovePreparer p target, ''during shrink step 1 (remove preparer)'')) proposers @
     [(Propose (proposers ! n) zerokey identity, ''during shrink step 2 (identity read)'')] @
     map (\<lambda>p. (RemoveAccepter p target, ''during shrink step 3 (remove accepter)'')) proposers"

fun run_steps :: "'w handler \<Rightarrow> (call \<times> string) list \<Rightarrow> 'w st \<Rightarrow> error option \<times> 'w st" where
  "run_steps h [] s = (None, s)"
| "run_steps h ((c, msg) # cs) s =
     (let (r, s1) = invoke h c s
      in if err r \<noteq> None then (Wrap (err r) msg, s1) else run_steps h cs s1)"

text \<open>The calls that undo a step of ShrinkCluster put the target back.\<close>

fun puts_back :: "Acceptor \<Rightarrow> call \<times> reply \<Rightarrow> bool" where
  "puts_back target (AddPreparer p a, r) = (a = target)"
| "puts_back target (AddAccepter p a, r) = (a = target)"
| "puts_back target (c, r) = False"

section \<open>The sets of the proposers under the undo calls\<close>

text \<open>
  What the claims say about a failed reconfiguration concerns the two sets of every
  proposer only. \<open>apply_undo\<close> is the effect on these sets of one function of the undo
  stack, run on fakes whose undo calls are not made to fail: a Remove takes the target
  out of the set of the proposer that the captured variable holds, an Add puts it in.
\<close>

type_synonym sets = "(Proposer \<Rightarrow> Acceptor set) \<times> (Proposer \<Rightarrow> Acceptor set)"

definition sets_of :: "fake \<Rightarrow> sets" where
  "sets_of w = (AcceptSet w, PrepareSet w)"

fun var_of :: "closure \<Rightarrow> var" where
  "var_of (Call_RemoveAccepter v) = v"
| "var_of (Call_RemovePreparer v) = v"
| "var_of (Call_AddPreparer v) = v"
| "var_of (Call_AddAccepter v) = v"

fun removes :: "closure \<Rightarrow> bool" where
  "removes (Call_RemoveAccepter v) = True"
| "removes (Call_RemovePreparer v) = True"
| "removes c = False"

fun apply_undo :: "(var \<Rightarrow> Proposer) \<Rightarrow> Acceptor \<Rightarrow> closure \<Rightarrow> sets \<Rightarrow> sets" where
  "apply_undo vs t (Call_RemoveAccepter v) (A, P) = (A(vs v := A (vs v) - {t}), P)"
| "apply_undo vs t (Call_RemovePreparer v) (A, P) = (A, P(vs v := P (vs v) - {t}))"
| "apply_undo vs t (Call_AddPreparer v) (A, P) = (A, P(vs v := insert t (P (vs v))))"
| "apply_undo vs t (Call_AddAccepter v) (A, P) = (A(vs v := insert t (A (vs v))), P)"

definition undo_calls_succeed :: "(nat \<Rightarrow> call \<Rightarrow> error option) \<Rightarrow> bool" where
  "undo_calls_succeed inject =
     (\<forall>t p a. inject t (RemoveAccepter p a) = None \<and> inject t (RemovePreparer p a) = None)"

section \<open>Evaluation of the scenarios\<close>

text \<open>
  The scenarios are evaluated by rewriting with the definitions. The deferred function
  is unfolded in a second pass, once the body has been evaluated to its frame.
\<close>

lemmas scenario_defs = GrowCluster_def GrowCluster_body_def ShrinkCluster_def
  ShrinkCluster_body_def invoke_def fake_handler_def Intn_def Wrap_def
  frame0_def steady_def grown_def start_def ok_def failed_def Let_def zerokey_def
  no_fault_def fault_at_def

lemmas deferred_defs = run_deferred_def invoke_def fake_handler_def ok_def failed_def Let_def

section \<open>The random proposer of an empty list\<close>

text \<open>
  Claim C10. GrowCluster, ShrinkCluster and GarbageCollect pick a proposer with
  \<open>proposers[rand.Intn(len(proposers))]\<close>. On an empty list \<open>rand.Intn(0)\<close> panics, so
  none of the three returns: each ends in the panic, having called nothing.
\<close>

theorem empty_proposers_panic:
  "GrowCluster lv h rnd target [] s = (Panic, s) \<and>
   ShrinkCluster lv h rnd target [] s = (Panic, s) \<and>
   GarbageCollect h rnds i key t [] acceptors s = Some (Panic, s)"
  by (simp add: GrowCluster_def GrowCluster_body_def ShrinkCluster_def ShrinkCluster_body_def
      Intn_def run_deferred_def frame0_def GarbageCollect.simps)

section \<open>The advertise address\<close>

lemma To4_length: "To4 ip = Some ip4 \<Longrightarrow> length ip4 = 4"
  by (auto simp: To4_def split: if_splits)

lemma To4_IPv4: "To4 (IPv4 a b c d) = Some [a, b, c, d]"
  by (simp add: To4_def IPv4_def v4InV6Prefix_def numeral_eq_Suc)

lemma advertise_host_parsed:
  "advertiseHost \<noteq> [] \<Longrightarrow> ParseIP env advertiseHost = Some ip \<Longrightarrow>
   calculateAdvertiseIP env bindHost advertiseHost = (Some (to4_if_any ip), None)"
  by (simp add: calculateAdvertiseIP_def prefer_advertise_def)

text \<open>
  Claim C7. With the bind host \<open>0.0.0.0\<close> and no usable advertise host the function is
  to return the private address of the host, and to fail when there is none. When
  \<open>sockaddr.GetPrivateIP\<close> finds no private address it returns the empty string and a
  nil error; the function then returns \<open>errors.Wrap(err, ...)\<close> of that nil error, which
  is nil: it returns no address and no error. The theorem runs the function on any
  host without a private address, with no advertise host.
\<close>

theorem calculateAdvertiseIP_no_private_IP:
  "calculateAdvertiseIP (env\<lparr>GetPrivateIP := ([], None)\<rparr>) ''0.0.0.0'' [] = (None, None)"
  by (simp add: calculateAdvertiseIP_def Wrap_def)

text \<open>
  Claim C8. Whatever the bind host, an advertise host that is not empty and parses as
  an address is returned without error, in its 4-byte form when \<open>To4\<close> has one and
  unchanged otherwise. In particular the bind host \<open>0.0.0.0\<close> with the advertise host
  \<open>1.2.3.4\<close> gives the four bytes 1, 2, 3, 4, \<open>net.ParseIP\<close> returning the 16-byte form
  of a dotted quad.
\<close>

theorem calculateAdvertiseIP_advertise_IP:
  "(advertiseHost \<noteq> [] \<and> ParseIP env advertiseHost = Some ip \<longrightarrow>
      (\<exists>ip'. calculateAdvertiseIP env bindHost advertiseHost = (Some ip', None) \<and>
             (case To4 ip of Some ip4 \<Rightarrow> ip' = ip4 \<and> length ip' = 4 | None \<Rightarrow> ip' = ip))) \<and>
   (ParseIP env ''1.2.3.4'' = Some (IPv4 1 2 3 4) \<longrightarrow>
      calculateAdvertiseIP env ''0.0.0.0'' ''1.2.3.4'' = (Some [1, 2, 3, 4], None))"
proof (intro conjI impI)
  assume a: "advertiseHost \<noteq> [] \<and> ParseIP env advertiseHost = Some ip"
  then have "calculateAdvertiseIP env bindHost advertiseHost = (Some (to4_if_any ip), None)"
    by (simp add: advertise_host_parsed)
  moreover have "case To4 ip of Some ip4 \<Rightarrow> to4_if_any ip = ip4 \<and> length (to4_if_any ip) = 4
                 | None \<Rightarrow> to4_if_any ip = ip"
    by (simp add: to4_if_any_def To4_length split: option.split)
  ultimately show "\<exists>ip'. calculateAdvertiseIP env bindHost advertiseHost = (Some ip', None) \<and>
             (case To4 ip of Some ip4 \<Rightarrow> ip' = ip4 \<and> length ip' = 4 | None \<Rightarrow> ip' = ip)"
    by blast
next
  assume "ParseIP env ''1.2.3.4'' = Some (IPv4 1 2 3 4)"
  then show "calculateAdvertiseIP env ''0.0.0.0'' ''1.2.3.4'' = (Some [1, 2, 3, 4], None)"
    using advertise_host_parsed [of "''1.2.3.4''" env "IPv4 1 2 3 4" "''0.0.0.0''"]
    by (simp add: to4_if_any_def To4_IPv4)
qed

theorem calculateAdvertiseIP_advertise_IP_witness:
  "''1.2.3.4'' \<noteq> [] \<and> ParseIP lab_host ''1.2.3.4'' = Some (IPv4 1 2 3 4) \<and>
   calculateAdvertiseIP lab_host ''0.0.0.0'' ''1.2.3.4'' = (Some [1, 2, 3, 4], None)"
  using calculateAdvertiseIP_advertise_IP [of "''1.2.3.4''" lab_host "IPv4 1 2 3 4" "''0.0.0.0''"]
  by (simp add: lab_host_def)

section \<open>GarbageCollect: what a call does\<close>

text \<open>
  Claim C1. A call of GarbageCollect that returns nil is to have fast-forwarded every
  proposer and removed the key on every acceptor. The body of GarbageCollect stops
  after the identity read: its blocks for the later steps are empty, and
  gcFastForward and gcRemoveIfEmpty are never called. On three healthy proposers and
  three acceptors it returns nil after one call, the identity read, and that is its
  whole trace.
\<close>

theorem GarbageCollect_returns_after_identity_read:
  "GarbageCollect (fake_handler no_fault) (\<lambda>i. 0) 0 ''z''
      \<lparr>Ballot = \<lparr>Counter = 7, ID = 1\<rparr>, State = []\<rparr> [1, 2, 3] [1, 2, 3] (start steady) =
   Some (Return None,
     \<lparr>world = steady\<lparr>issued := 1, clock := 1\<rparr>,
      trace = [(FullIdentityRead 1 ''z'',
                \<lparr>state = [], ballot = \<lparr>Counter = 1, ID = 1\<rparr>, err = None\<rparr>)]\<rparr>)"
  by (simp add: GarbageCollect.simps scenario_defs)

text \<open>
  Claim C6. One round of GarbageCollect whose identity read fails: when the error is
  \<open>context.Canceled\<close> the call returns it at once, without waiting; otherwise it waits
  in the \<open>select\<close> on one second and the context, and either goes through the whole
  procedure again from the state the wait left (the timer fired) or returns the
  context's error (the context was done), with no further round.
\<close>

theorem GarbageCollect_retry_or_cancel:
  assumes "proposers \<noteq> []"
    and "invoke h (FullIdentityRead (proposers ! (rnd i mod length proposers)) key) s = (r, s1)"
    and "err r \<noteq> None"
    and "invoke h (After_or_Done Second) s1 = (d, s2)"
  shows "GarbageCollect h rnd i key t proposers acceptors s =
          (if err r = Some Canceled then Some (Return (Some Canceled), s1)
           else if err d = None then GarbageCollect h rnd (Suc i) key t proposers acceptors s2
           else Some (Return (err d), s2))"
  using assms by (subst GarbageCollect.simps) (auto simp: Intn_def)

text \<open>
  Three runs on the fake: the first read fails and the second round succeeds after the
  wait; the first read is cancelled; the first read fails and the context is done
  during the wait.
\<close>

theorem GarbageCollect_retry_or_cancel_witness:
  "GarbageCollect (fake_handler (fault_at [(0, Failure ''unreachable'')])) (\<lambda>i. 0) 0 ''z''
      \<lparr>Ballot = \<lparr>Counter = 7, ID = 1\<rparr>, State = []\<rparr> [1, 2, 3] [1, 2, 3] (start steady) =
   Some (Return None,
     \<lparr>world = steady\<lparr>issued := 1, clock := 3\<rparr>,
      trace = [(FullIdentityRead 1 ''z'', failed (Failure ''unreachable'')),
               (After_or_Done Second, ok),
               (FullIdentityRead 1 ''z'',
                \<lparr>state = [], ballot = \<lparr>Counter = 1, ID = 1\<rparr>, err = None\<rparr>)]\<rparr>) \<and>
   GarbageCollect (fake_handler (fault_at [(0, Canceled)])) (\<lambda>i. 0) 0 ''z''
      \<lparr>Ballot = \<lparr>Counter = 7, ID = 1\<rparr>, State = []\<rparr> [1, 2, 3] [1, 2, 3] (start steady) =
   Some (Return (Some Canceled),
     \<lparr>world = steady\<lparr>clock := 1\<rparr>,
      trace = [(FullIdentityRead 1 ''z'', failed Canceled)]\<rparr>) \<and>
   GarbageCollect (fake_handler (fault_at [(0, Failure ''unreachable''), (1, Canceled)]))
      (\<lambda>i. 0) 0 ''z''
      \<lparr>Ballot = \<lparr>Counter = 7, ID = 1\<rparr>, State = []\<rparr> [1, 2, 3] [1, 2, 3] (start steady) =
   Some (Return (Some Canceled),
     \<lparr>world = steady\<lparr>clock := 2\<rparr>,
      trace = [(FullIdentityRead 1 ''z'', failed (Failure ''unreachable'')),
               (After_or_Done Second, failed Canceled)]\<rparr>)"
  using
    GarbageCollect_retry_or_cancel [OF _ prod.collapse[symmetric] _ prod.collapse[symmetric],
        of "[1, 2, 3]" "fake_handler (fault_at [(0, Failure ''unreachable'')])" "\<lambda>i. 0" 0
           "''z''" "start steady" "\<lparr>Ballot = \<lparr>Counter = 7, ID = 1\<rparr>, State = []\<rparr>" "[1, 2, 3]"]
    GarbageCollect_retry_or_cancel [OF _ prod.collapse[symmetric] _ prod.collapse[symmetric],
        of "[1, 2, 3]" "fake_handler (fault_at [(0, Canceled)])" "\<lambda>i. 0" 0
           "''z''" "start steady" "\<lparr>Ballot = \<lparr>Counter = 7, ID = 1\<rparr>, State = []\<rparr>" "[1, 2, 3]"]
    GarbageCollect_retry_or_cancel [OF _ prod.collapse[symmetric] _ prod.collapse[symmetric],
        of "[1, 2, 3]" "fake_handler (fault_at [(0, Failure ''unreachable''), (1, Canceled)])"
           "\<lambda>i. 0" 0
           "''z''" "start steady" "\<lparr>Ballot = \<lparr>Counter = 7, ID = 1\<rparr>, State = []\<rparr>" "[1, 2, 3]"]
  by (simp add: scenario_defs GarbageCollect.simps)

section \<open>Reconfiguration\<close>

subsection \<open>The loops over the proposers\<close>



lemma range_loop_run_steps:
  "range_loop lv h l m u msg ps i fr s = (e, fr', s') \<Longrightarrow>
   run_steps h (map (\<lambda>p. (m p, msg)) ps @ rest) s =
     (case e of None \<Rightarrow> run_steps h rest s' | Some x \<Rightarrow> (Some x, s'))"
proof (induction ps arbitrary: i fr s)
  case Nil
  then show ?case by simp
next
  case (Cons p ps)
  obtain r s1 where inv: "invoke h (m p) s = (r, s1)" by (cases "invoke h (m p) s")
  show ?case
  proof (cases "err r")
    case None
    with Cons.prems inv obtain fr1 where
      rest: "range_loop lv h l m u msg ps (Suc i) fr1 s1 = (e, fr', s')"
      by (auto simp: Let_def)
    from Cons.IH [OF rest] None inv show ?thesis by simp
  next
    case (Some x)
    with Cons.prems inv show ?thesis by (auto simp: Let_def Wrap_def)
  qed
qed

lemma range_loop_undo:
  "range_loop lv h l m u msg ps i fr s = (e, fr', s') \<Longrightarrow>
   set (undo fr') \<subseteq> set (undo fr) \<union> range u"
proof (induction ps arbitrary: i fr s)
  case Nil
  then show ?case by auto
next
  case (Cons p ps)
  obtain r s1 where inv: "invoke h (m p) s = (r, s1)" by (cases "invoke h (m p) s")
  show ?case
  proof (cases "err r")
    case None
    let ?fr1 = "fr\<lparr>vars := (vars fr)(loopvar lv l i := p), undo := undo fr @ [u (loopvar lv l i)]\<rparr>"
    from Cons.prems inv None have
      rest: "range_loop lv h l m u msg ps (Suc i) ?fr1 s1 = (e, fr', s')"
      by (simp add: Let_def)
    from Cons.IH [OF rest] show ?thesis by auto
  next
    case (Some x)
    with Cons.prems inv show ?thesis by (auto simp: Let_def)
  qed
qed

lemma fold_run_closure_puts_back:
  "set cs \<subseteq> range Call_AddPreparer \<union> range Call_AddAccepter \<Longrightarrow>
   \<exists>us. trace (fold (run_closure h target vs) cs s) = trace s @ us \<and>
        list_all (puts_back target) us"
proof (induction cs arbitrary: s)
  case Nil
  then show ?case by simp
next
  case (Cons c cs)
  from Cons.prems have c: "c \<in> range Call_AddPreparer \<union> range Call_AddAccepter"
    and cs: "set cs \<subseteq> range Call_AddPreparer \<union> range Call_AddAccepter" by auto
  from c have "\<exists>u. trace (run_closure h target vs c s) = trace s @ [u] \<and> puts_back target u"
    by (auto simp: invoke_def split_def Let_def)
  then obtain u where
    step: "trace (run_closure h target vs c s) = trace s @ [u]" "puts_back target u"
    by auto
  from Cons.IH [OF cs, of "run_closure h target vs c s"] obtain us where
    "trace (fold (run_closure h target vs) cs (run_closure h target vs c s)) =
       trace (run_closure h target vs c s) @ us" "list_all (puts_back target) us" by blast
  with step have "trace (fold (run_closure h target vs) (c # cs) s) = trace s @ (u # us) \<and>
      list_all (puts_back target) (u # us)" by simp
  then show ?case by blast
qed

lemma ShrinkCluster_body_run_steps:
  assumes ne: "proposers \<noteq> []"
  shows "\<exists>fr. ShrinkCluster_body lv h rnd target proposers s =
            (Return (fst (run_steps h (shrink_steps target proposers (rnd mod length proposers)) s)),
             fr, snd (run_steps h (shrink_steps target proposers (rnd mod length proposers)) s)) \<and>
          set (undo fr) \<subseteq> range Call_AddPreparer \<union> range Call_AddAccepter \<and>
          (fst (run_steps h (shrink_steps target proposers (rnd mod length proposers)) s) = None
             \<longrightarrow> undo fr = [])"
proof -
  let ?n = "rnd mod length proposers"
  let ?m1 = "''during shrink step 1 (remove preparer)''"
  let ?m2 = "''during shrink step 2 (identity read)''"
  let ?m3 = "''during shrink step 3 (remove accepter)''"
  let ?rest3 = "map (\<lambda>p. (RemoveAccepter p target, ?m3)) proposers"
  let ?rest2 = "(Propose (proposers ! ?n) zerokey identity, ?m2) # ?rest3"
  obtain e1 fr1 s1 where l1: "range_loop lv h 1 (\<lambda>p. RemovePreparer p target) Call_AddPreparer
      ?m1 proposers 0 frame0 s = (e1, fr1, s1)" by (metis prod_cases3)
  have u1: "set (undo fr1) \<subseteq> range Call_AddPreparer"
    using range_loop_undo [OF l1] by (simp add: frame0_def)
  have steps: "shrink_steps target proposers ?n =
      map (\<lambda>p. (RemovePreparer p target, ?m1)) proposers @ ?rest2"
    by (simp add: shrink_steps_def)
  from range_loop_run_steps [OF l1, of ?rest2] steps
  have r1: "run_steps h (shrink_steps target proposers ?n) s =
      (case e1 of None \<Rightarrow> run_steps h ?rest2 s1 | Some x \<Rightarrow> (Some x, s1))" by simp
  from ne have intn: "Intn rnd (length proposers) = Some ?n" by (simp add: Intn_def)
  show ?thesis
  proof (cases e1)
    case (Some x)
    with l1 r1 u1 show ?thesis by (auto simp: ShrinkCluster_body_def)
  next
    case None
    obtain r s2 where inv: "invoke h (Propose (proposers ! ?n) zerokey identity) s1 = (r, s2)"
      by (cases "invoke h (Propose (proposers ! ?n) zerokey identity) s1")
    show ?thesis
    proof (cases "err r")
      case (Some x)
      with None l1 r1 u1 intn inv show ?thesis
        by (auto simp: ShrinkCluster_body_def Wrap_def)
    next
      case rNone: None
      obtain e3 fr3 s3 where l3: "range_loop lv h 3 (\<lambda>p. RemoveAccepter p target)
          Call_AddAccepter ?m3 proposers 0 fr1 s2 = (e3, fr3, s3)" by (metis prod_cases3)
      have u3: "set (undo fr3) \<subseteq> range Call_AddPreparer \<union> range Call_AddAccepter"
        using range_loop_undo [OF l3] u1 by auto
      from range_loop_run_steps [OF l3, of "[]"]
      have r3: "run_steps h ?rest3 s2 = (case e3 of None \<Rightarrow> (None, s3) | Some x \<Rightarrow> (Some x, s3))"
        by (cases e3) simp_all
      from None rNone inv r1 r3
      have R: "run_steps h (shrink_steps target proposers ?n) s =
          (case e3 of None \<Rightarrow> (None, s3) | Some x \<Rightarrow> (Some x, s3))" by simp
      show ?thesis
      proof (cases e3)
        case None3: None
        with None rNone l1 l3 intn inv R show ?thesis
          by (simp add: ShrinkCluster_body_def)
      next
        case (Some x)
        with None rNone l1 l3 intn inv R u3 show ?thesis
          by (simp add: ShrinkCluster_body_def)
      qed
    qed
  qed
qed

lemmas steps_defs = grow_steps_def shrink_steps_def invoke_def fake_handler_def Wrap_def
  steady_def grown_def start_def ok_def failed_def Let_def zerokey_def no_fault_def fault_at_def

subsection \<open>GrowCluster on success\<close>



subsection \<open>ShrinkCluster\<close>

text \<open>
  Claim C5. On a non-empty list of proposers ShrinkCluster runs the steps of the spec
  (RemovePreparer of the target on every proposer, the identity read on the zerokey on
  the proposer that the random number picks, RemoveAccepter of the target on every
  proposer) in that order, stops at the first call that fails and returns its error
  under the name of the step, or nil when none fails. Whatever it calls after these
  steps is an undo call, which puts the target back, and after a full run there is
  none.
\<close>

theorem ShrinkCluster_mirrors_steps:
  assumes "proposers \<noteq> []"
  shows "fst (ShrinkCluster lv h rnd target proposers s) =
           Return (fst (run_steps h (shrink_steps target proposers (rnd mod length proposers)) s)) \<and>
         (\<exists>us. trace (snd (ShrinkCluster lv h rnd target proposers s)) =
                 trace (snd (run_steps h (shrink_steps target proposers (rnd mod length proposers)) s)) @ us \<and>
               list_all (puts_back target) us) \<and>
         (fst (run_steps h (shrink_steps target proposers (rnd mod length proposers)) s) = None \<longrightarrow>
            snd (ShrinkCluster lv h rnd target proposers s) =
            snd (run_steps h (shrink_steps target proposers (rnd mod length proposers)) s))"
proof -
  let ?R = "run_steps h (shrink_steps target proposers (rnd mod length proposers)) s"
  from ShrinkCluster_body_run_steps [OF assms, of lv h rnd target s] obtain fr where
    body: "ShrinkCluster_body lv h rnd target proposers s = (Return (fst ?R), fr, snd ?R)"
    and u: "set (undo fr) \<subseteq> range Call_AddPreparer \<union> range Call_AddAccepter"
    and n: "fst ?R = None \<longrightarrow> undo fr = []" by auto
  have S: "ShrinkCluster lv h rnd target proposers s = (Return (fst ?R), run_deferred h target fr (snd ?R))"
    by (simp add: ShrinkCluster_def body)
  from u have "set (rev (undo fr)) \<subseteq> range Call_AddPreparer \<union> range Call_AddAccepter" by simp
  from fold_run_closure_puts_back [OF this, of h target "vars fr" "snd ?R"]
  have "\<exists>us. trace (run_deferred h target fr (snd ?R)) = trace (snd ?R) @ us \<and>
        list_all (puts_back target) us" by (simp add: run_deferred_def)
  moreover from n have "fst ?R = None \<longrightarrow> run_deferred h target fr (snd ?R) = snd ?R"
    by (simp add: run_deferred_def)
  ultimately show ?thesis by (simp add: S)
qed

theorem ShrinkCluster_mirrors_steps_witness:
  "fst (ShrinkCluster OnePerLoop (fake_handler no_fault) 0 4 [1, 2, 3] (start grown)) = Return None \<and>
   map fst (trace (snd (ShrinkCluster OnePerLoop (fake_handler no_fault) 0 4 [1, 2, 3] (start grown)))) =
     [RemovePreparer 1 4, RemovePreparer 2 4, RemovePreparer 3 4, Propose 1 zerokey identity,
      RemoveAccepter 1 4, RemoveAccepter 2 4, RemoveAccepter 3 4] \<and>
   fst (ShrinkCluster OnePerLoop (fake_handler (fault_at [(1, Failure ''injected'')])) 0 4 [1, 2, 3]
          (start grown)) =
     Return (Some (Wrapped (Failure ''injected'') ''during shrink step 1 (remove preparer)''))"
proof -
  let ?R = "run_steps (fake_handler no_fault) (shrink_steps 4 [1, 2, 3] 0) (start grown)"
  have r: "fst ?R = None"
    "map fst (trace (snd ?R)) =
       [RemovePreparer 1 4, RemovePreparer 2 4, RemovePreparer 3 4, Propose 1 zerokey identity,
        RemoveAccepter 1 4, RemoveAccepter 2 4, RemoveAccepter 3 4]"
    by (simp_all add: steps_defs insert_Diff_if)
  have r': "fst (run_steps (fake_handler (fault_at [(1, Failure ''injected'')]))
               (shrink_steps 4 [1, 2, 3] 0) (start grown)) =
            Some (Wrapped (Failure ''injected'') ''during shrink step 1 (remove preparer)'')"
    by (simp add: steps_defs insert_Diff_if)
  from ShrinkCluster_mirrors_steps [of "[1, 2, 3]" OnePerLoop "fake_handler no_fault" 0 4 "start grown"] r
    ShrinkCluster_mirrors_steps [of "[1, 2, 3]" OnePerLoop "fake_handler (fault_at [(1, Failure ''injected'')])" 0 4
          "start grown"] r'
  show ?thesis by simp
qed

subsection \<open>GrowCluster on failure\<close>

text \<open>
  Claim C2. When GrowCluster returns an error, with undo calls that are not made to
  fail, every proposer is to have the sets it had before the call. The scenario is
  S3 of the spec: proposers 1, 2, 3 in steady state, and AddPreparer made to fail on
  proposer 3. With the one variable per loop of the Go that this code is written in,
  every function on the undo stack calls the proposer that its loop visited last:
  proposer 3 is asked five times to forget acceptor 4, proposers 1 and 2 never, and
  these two keep acceptor 4 in both of their sets.
\<close>

theorem GrowCluster_undo_on_last_proposer:
  "(let (res, s') = GrowCluster OnePerLoop (fake_handler fault_S3) 0 4 [1, 2, 3] (start steady)
    in res = Return (Some (Wrapped (Failure ''injected'') ''during grow step 3 (add preparer)'')) \<and>
       map fst (drop 6 (trace s')) =
         [AddPreparer 3 4, RemovePreparer 3 4, RemovePreparer 3 4,
          RemoveAccepter 3 4, RemoveAccepter 3 4, RemoveAccepter 3 4] \<and>
       map (AcceptSet (world s')) [1, 2, 3] = [insert 4 {1, 2, 3}, insert 4 {1, 2, 3}, {1, 2, 3}] \<and>
       map (PrepareSet (world s')) [1, 2, 3] = [insert 4 {1, 2, 3}, insert 4 {1, 2, 3}, {1, 2, 3}])"
  by (simp add: scenario_defs) (simp add: deferred_defs insert_Diff_if)

text \<open>
  The same scenario with one variable per iteration (Go 1.22 and later): the undo
  calls reach the proposers in reverse order and every set is as it was.
\<close>

lemma GrowCluster_undo_one_variable_per_iteration:
  "(let (res, s') = GrowCluster OnePerIteration (fake_handler fault_S3) 0 4 [1, 2, 3] (start steady)
    in res = Return (Some (Wrapped (Failure ''injected'') ''during grow step 3 (add preparer)'')) \<and>
       map fst (drop 6 (trace s')) =
         [AddPreparer 3 4, RemovePreparer 2 4, RemovePreparer 1 4,
          RemoveAccepter 3 4, RemoveAccepter 2 4, RemoveAccepter 1 4] \<and>
       map (AcceptSet (world s')) [1, 2, 3] = [{1, 2, 3}, {1, 2, 3}, {1, 2, 3}] \<and>
       map (PrepareSet (world s')) [1, 2, 3] = [{1, 2, 3}, {1, 2, 3}, {1, 2, 3}])"
  by (simp add: scenario_defs) (simp add: deferred_defs insert_Diff_if)

text \<open>
  With one variable per iteration the undo stack does what the claim asks, on every
  list of proposers and for every injected failure that spares the undo calls: each
  function on the stack takes back the call that pushed it, on the proposer of that
  call, and a call that fails leaves the sets as they were.
\<close>

lemma run_closure_sets:
  assumes "undo_calls_succeed inject" "removes c"
  shows "sets_of (world (run_closure (fake_handler inject) t vs c s)) =
         apply_undo vs t c (sets_of (world s))"
  using assms
  by (cases c)
     (auto simp: undo_calls_succeed_def sets_of_def invoke_def fake_handler_def Let_def
           split: prod.splits option.splits)

lemma fold_run_closure_sets:
  assumes "undo_calls_succeed inject" "list_all removes cs"
  shows "sets_of (world (fold (run_closure (fake_handler inject) t vs) cs s)) =
         fold (apply_undo vs t) cs (sets_of (world s))"
  using assms(2)
proof (induction cs arbitrary: s)
  case Nil
  then show ?case by simp
next
  case (Cons c cs)
  then show ?case by (simp add: run_closure_sets [OF assms(1)])
qed

lemma apply_undo_vars:
  "vs (var_of c) = vs' (var_of c) \<Longrightarrow> apply_undo vs t c x = apply_undo vs' t c x"
  by (cases c; cases x) simp_all

lemma fold_apply_undo_vars:
  "\<forall>c\<in>set cs. vs (var_of c) = vs' (var_of c) \<Longrightarrow>
   fold (apply_undo vs t) cs x = fold (apply_undo vs' t) cs x"
proof (induction cs arbitrary: x)
  case Nil
  then show ?case by simp
next
  case (Cons c cs)
  then show ?case using apply_undo_vars [of vs c vs' t x] by simp
qed

lemma range_loop_undo_vars:
  "range_loop lv h l m u msg ps i fr s = (e, fr', s') \<Longrightarrow>
   set (undo fr') \<subseteq> set (undo fr) \<union> u ` {v. fst v = l}"
proof (induction ps arbitrary: i fr s)
  case Nil
  then show ?case by auto
next
  case (Cons p ps)
  obtain r s1 where inv: "invoke h (m p) s = (r, s1)" by (cases "invoke h (m p) s")
  show ?case
  proof (cases "err r")
    case None
    let ?fr1 = "fr\<lparr>vars := (vars fr)(loopvar lv l i := p), undo := undo fr @ [u (loopvar lv l i)]\<rparr>"
    from Cons.prems inv None have
      rest: "range_loop lv h l m u msg ps (Suc i) ?fr1 s1 = (e, fr', s')"
      by (simp add: Let_def)
    have "fst (loopvar lv l i) = l" by (cases lv) simp_all
    with Cons.IH [OF rest] show ?thesis by auto
  next
    case (Some x)
    with Cons.prems inv show ?thesis by (auto simp: Let_def)
  qed
qed

lemma range_loop_compensated:
  fixes H :: "fake handler"
  assumes comp: "\<And>p s r s1 vs v. invoke H (m p) s = (r, s1) \<Longrightarrow>
        (if err r = None
         then apply_undo (vs(v := p)) t (u v) (sets_of (world s1)) = sets_of (world s)
         else sets_of (world s1) = sets_of (world s))"
    and uv: "\<And>v. var_of (u v) = v"
  shows "range_loop OnePerIteration H l m u msg ps i fr s = (e, fr', s') \<Longrightarrow>
         \<forall>c\<in>set (undo fr). fst (var_of c) = l \<longrightarrow> snd (var_of c) < i \<Longrightarrow>
         fold (apply_undo (vars fr') t) (rev (undo fr')) (sets_of (world s')) =
         fold (apply_undo (vars fr) t) (rev (undo fr)) (sets_of (world s))"
proof (induction ps arbitrary: i fr s)
  case Nil
  then show ?case by simp
next
  case (Cons p ps)
  let ?v = "(l, i)"
  let ?vs = "(vars fr)(?v := p)"
  obtain r s1 where inv: "invoke H (m p) s = (r, s1)" by (cases "invoke H (m p) s")
  from Cons.prems(2) have old: "\<forall>c\<in>set (rev (undo fr)). ?vs (var_of c) = vars fr (var_of c)"
    by (auto simp: prod_eq_iff)
  have same: "\<And>x. fold (apply_undo ?vs t) (rev (undo fr)) x =
                  fold (apply_undo (vars fr) t) (rev (undo fr)) x"
    by (rule fold_apply_undo_vars [OF old])
  show ?case
  proof (cases "err r")
    case (Some x)
    with Cons.prems(1) inv have eq: "fr' = fr\<lparr>vars := ?vs\<rparr>" "s' = s1"
      by (auto simp: Let_def)
    from comp [OF inv] Some have unchanged: "sets_of (world s1) = sets_of (world s)" by simp
    have "fold (apply_undo (vars fr') t) (rev (undo fr')) (sets_of (world s')) =
          fold (apply_undo ?vs t) (rev (undo fr)) (sets_of (world s1))"
      unfolding eq by simp
    also have "\<dots> = fold (apply_undo ?vs t) (rev (undo fr)) (sets_of (world s))"
      by (simp only: unchanged)
    also have "\<dots> = fold (apply_undo (vars fr) t) (rev (undo fr)) (sets_of (world s))"
      by (rule same)
    finally show ?thesis .
  next
    case None
    let ?fr2 = "fr\<lparr>vars := ?vs, undo := undo fr @ [u ?v]\<rparr>"
    from Cons.prems(1) inv None have
      rest: "range_loop OnePerIteration H l m u msg ps (Suc i) ?fr2 s1 = (e, fr', s')"
      by (simp add: Let_def)
    from Cons.prems(2) have
      fresh: "\<forall>c\<in>set (undo ?fr2). fst (var_of c) = l \<longrightarrow> snd (var_of c) < Suc i"
      by (auto simp: uv)
    from comp [OF inv, of ?vs ?v] None
    have undone: "apply_undo ?vs t (u ?v) (sets_of (world s1)) = sets_of (world s)" by simp
    have v2: "vars ?fr2 = ?vs" "undo ?fr2 = undo fr @ [u ?v]" by simp_all
    have "fold (apply_undo (vars fr') t) (rev (undo fr')) (sets_of (world s')) =
          fold (apply_undo (vars ?fr2) t) (rev (undo ?fr2)) (sets_of (world s1))"
      by (rule Cons.IH [OF rest fresh])
    also have "\<dots> =
          fold (apply_undo ?vs t) (rev (undo fr)) (apply_undo ?vs t (u ?v) (sets_of (world s1)))"
      unfolding v2 by simp
    also have "\<dots> = fold (apply_undo ?vs t) (rev (undo fr)) (sets_of (world s))"
      by (simp only: undone)
    also have "\<dots> = fold (apply_undo (vars fr) t) (rev (undo fr)) (sets_of (world s))"
      by (rule same)
    finally show ?thesis .
  qed
qed

lemma AddAccepter_compensated:
  "invoke (fake_handler inject) (AddAccepter p t) s = (r, s1) \<Longrightarrow>
   (if err r = None
    then apply_undo (vs(v := p)) t (Call_RemoveAccepter v) (sets_of (world s1)) = sets_of (world s)
    else sets_of (world s1) = sets_of (world s))"
  by (auto simp: invoke_def fake_handler_def Let_def sets_of_def ok_def failed_def
      split: option.splits if_splits)

lemma AddPreparer_compensated:
  "invoke (fake_handler inject) (AddPreparer p t) s = (r, s1) \<Longrightarrow>
   (if err r = None
    then apply_undo (vs(v := p)) t (Call_RemovePreparer v) (sets_of (world s1)) = sets_of (world s)
    else sets_of (world s1) = sets_of (world s))"
  by (auto simp: invoke_def fake_handler_def Let_def sets_of_def ok_def failed_def
      split: option.splits if_splits)

lemma Propose_sets:
  "invoke (fake_handler inject) (Propose p k f) s = (r, s1) \<Longrightarrow>
   sets_of (world s1) = sets_of (world s)"
  by (auto simp: invoke_def fake_handler_def Let_def sets_of_def split: option.splits)

lemma run_deferred_sets:
  assumes "undo_calls_succeed inject" "list_all removes (undo fr)"
  shows "sets_of (world (run_deferred (fake_handler inject) t fr s)) =
         fold (apply_undo (vars fr) t) (rev (undo fr)) (sets_of (world s))"
  using fold_run_closure_sets [OF assms(1), of "rev (undo fr)" t "vars fr" s] assms(2)
  by (simp add: run_deferred_def)

lemma GrowCluster_restores_one_variable_per_iteration:
  assumes u: "undo_calls_succeed inject"
    and g: "GrowCluster OnePerIteration (fake_handler inject) rnd target proposers s =
              (Return (Some e), s')"
  shows "AcceptSet (world s') = AcceptSet (world s) \<and> PrepareSet (world s') = PrepareSet (world s)"
proof -
  let ?H = "fake_handler inject"
  let ?n = "rnd mod length proposers"
  let ?U = "\<lambda>fr x. fold (apply_undo (vars fr) target) (rev (undo fr)) (sets_of (world x))"
  obtain e1 fr1 s1 where l1: "range_loop OnePerIteration ?H 1 (\<lambda>p. AddAccepter p target)
      Call_RemoveAccepter ''during grow step 1 (add accepter)'' proposers 0 frame0 s = (e1, fr1, s1)"
    by (metis prod_cases3)
  have U1: "?U fr1 s1 = sets_of (world s)"
    using range_loop_compensated [where u = Call_RemoveAccepter, OF AddAccepter_compensated _ l1]
    by (simp add: frame0_def)
  from range_loop_undo_vars [OF l1]
  have k1: "set (undo fr1) \<subseteq> Call_RemoveAccepter ` {v. fst v = 1}" by (simp add: frame0_def)
  then have r1: "list_all removes (undo fr1)" by (auto simp: list_all_iff)
  have goal: "sets_of (world s') = sets_of (world s)"
  proof (cases e1)
    case (Some x)
    with g l1 have "s' = run_deferred ?H target fr1 s1"
      by (simp add: GrowCluster_def GrowCluster_body_def)
    with run_deferred_sets [OF u r1] U1 show ?thesis by simp
  next
    case None
    from g l1 None have ne: "proposers \<noteq> []"
      by (auto simp: GrowCluster_def GrowCluster_body_def Intn_def)
    then have intn: "Intn rnd (length proposers) = Some ?n" by (simp add: Intn_def)
    obtain r s2 where inv: "invoke ?H (Propose (proposers ! ?n) zerokey identity) s1 = (r, s2)"
      by (cases "invoke ?H (Propose (proposers ! ?n) zerokey identity) s1")
    from Propose_sets [OF inv] U1 have U2: "?U fr1 s2 = sets_of (world s)" by simp
    show ?thesis
    proof (cases "err r")
      case (Some x)
      with g l1 None intn inv have "s' = run_deferred ?H target fr1 s2"
        by (simp add: GrowCluster_def GrowCluster_body_def)
      with run_deferred_sets [OF u r1] U2 show ?thesis by simp
    next
      case rNone: None
      obtain e3 fr3 s3 where l3: "range_loop OnePerIteration ?H 3 (\<lambda>p. AddPreparer p target)
          Call_RemovePreparer ''during grow step 3 (add preparer)'' proposers 0 fr1 s2 = (e3, fr3, s3)"
        by (metis prod_cases3)
      from k1 have fresh: "\<forall>c\<in>set (undo fr1). fst (var_of c) = 3 \<longrightarrow> snd (var_of c) < 0"
        by auto
      have U3: "?U fr3 s3 = sets_of (world s)"
        using range_loop_compensated [where u = Call_RemovePreparer,
                OF AddPreparer_compensated _ l3 fresh] U2
        by simp
      from range_loop_undo_vars [OF l3] k1
      have "set (undo fr3) \<subseteq> range Call_RemoveAccepter \<union> range Call_RemovePreparer"
        by blast
      then have r3: "list_all removes (undo fr3)" by (auto simp: list_all_iff)
      show ?thesis
      proof (cases e3)
        case (Some x)
        with g l1 None intn inv rNone l3 have "s' = run_deferred ?H target fr3 s3"
          by (simp add: GrowCluster_def GrowCluster_body_def)
        with run_deferred_sets [OF u r3] U3 show ?thesis by simp
      next
        case None3: None
        with g l1 None intn inv rNone l3 show ?thesis
          by (simp add: GrowCluster_def GrowCluster_body_def)
      qed
    qed
  qed
  then show ?thesis by (simp add: sets_of_def)
qed

section \<open>The broadcast helpers: replies in arrival order\<close>












end
